theory Spec2Isabelle
  imports Complex_Main "HOL-Library.Log_Nat" "HOL-Library.Sublist" "HOL-Library.Word"
begin

section \<open>Python values used by fotoapp.py\<close>

subsection \<open>Strings\<close>

text \<open>
  A string is a list of characters with code points below 256.  On these,
  \<^verbatim>\<open>str.lower\<close> maps A..Z and the Latin-1 capitals (192..222 except the
  multiplication sign 215) to the character 32 places further on and leaves every
  other character alone.
\<close>

definition lower_char :: "char \<Rightarrow> char" where
  "lower_char c =
     (let n = (of_char c :: nat)
      in if (65 \<le> n \<and> n \<le> 90) \<or> (192 \<le> n \<and> n \<le> 222 \<and> n \<noteq> 215)
         then char_of (n + 32) else c)"

definition lower :: "string \<Rightarrow> string" where
  "lower s = map lower_char s"

text \<open>\<^verbatim>\<open>s.startswith((p1, p2))\<close> with a tuple of prefixes.\<close>

definition startswith :: "string \<Rightarrow> string list \<Rightarrow> bool" where
  "startswith s ps = list_ex (\<lambda>p. prefix p s) ps"

subsection \<open>Floats\<close>

text \<open>
  A Python float is modelled by the rational number it denotes.  Every float
  operation of the program returns the exact result rounded to the nearest number
  with a 53-bit significand, ties to even (IEEE 754 binary64).  The exponent is
  not bounded: the model agrees with binary64 as long as no result overflows or
  becomes subnormal, which for the quotients and products below holds for every
  image side up to \<open>2 ^ 1000\<close>.

  \<open>ilog2 x\<close> is the exponent of the binade of a positive \<open>x\<close>, that is
  \<open>\<lfloor>log\<^sub>2 x\<rfloor>\<close>, computed from the bit lengths of numerator and denominator.
\<close>

definition ilog2 :: "rat \<Rightarrow> int" where
  "ilog2 x = (let (a, b) = quotient_of x; e = bitlen a - bitlen b
              in if 2 powi e \<le> x then e else e - 1)"

definition round_half_even :: "rat \<Rightarrow> int" where
  "round_half_even y =
     (let f = \<lfloor>y\<rfloor>; r = y - of_int f
      in if r < 1 / 2 then f else if 1 / 2 < r then f + 1
         else if even f then f else f + 1)"

definition fl :: "rat \<Rightarrow> rat" where
  "fl x = (if x = 0 then 0
           else let q = 2 powi (ilog2 \<bar>x\<bar> - 52)
                in of_int (round_half_even (x / q)) * q)"

subsection \<open>Exceptions\<close>

text \<open>
  \<open>ValueError msg\<close> stands for the \<^verbatim>\<open>ValueError\<close>s the program raises itself,
  with their message.  An exception raised inside a library call is named after the
  call that raised it: \<open>FetchError\<close> for \<^verbatim>\<open>requests.get\<close> and
  \<^verbatim>\<open>raise_for_status\<close>, \<open>DecodeError\<close> for \<^verbatim>\<open>Image.open(...).convert(...)\<close>,
  \<open>ResampleError\<close> for \<^verbatim>\<open>Image.resize\<close>, \<open>SaveError\<close> for \<^verbatim>\<open>Image.save\<close>.
\<close>

datatype error =
    ValueError string
  | ZeroDivisionError
  | FetchError
  | DecodeError
  | ResampleError
  | SaveError

text \<open>\<^verbatim>\<open>a / b\<close> on two ints: true division, correctly rounded.\<close>

definition truediv :: "int \<Rightarrow> int \<Rightarrow> error + rat" where
  "truediv a b = (if b = 0 then Inl ZeroDivisionError else Inr (fl (of_int a / of_int b)))"

text \<open>\<^verbatim>\<open>n * x\<close> on an int and a float: the int is converted to a float first.\<close>

definition mul_int_float :: "int \<Rightarrow> rat \<Rightarrow> rat" where
  "mul_int_float n x = fl (fl (of_int n) * x)"

text \<open>\<^verbatim>\<open>int(x)\<close> on a float truncates towards zero.\<close>

definition int_of_float :: "rat \<Rightarrow> int" where
  "int_of_float x = (if 0 \<le> x then \<lfloor>x\<rfloor> else \<lceil>x\<rceil>)"

section \<open>Images and the library\<close>

text \<open>
  An image has a size and a colour for every position; \<open>pixel img x y\<close> is only
  meaningful for \<open>0 \<le> x < width\<close> and \<open>0 \<le> y < height\<close>.  Mode RGB images carry
  triples, mode L images carry one grey level.
\<close>

record 'p image =
  width :: nat
  height :: nat
  pixel :: "int \<Rightarrow> int \<Rightarrow> 'p"

type_synonym rgb = "nat \<times> nat \<times> nat"

record response =
  status_code :: int
  content :: "8 word list"

text \<open>
  What the outside world and the imaging library answer.  \<open>None\<close> means that the
  call raised.  \<open>lanczos img w h\<close> is the pixel content that
  \<^verbatim>\<open>img.resize((w, h), Image.LANCZOS)\<close> computes.
\<close>

record env =
  requests_get :: "string \<Rightarrow> response option"
  open_bytes :: "8 word list \<Rightarrow> rgb image option"
  open_path :: "string \<Rightarrow> rgb image option"
  lanczos :: "rgb image \<Rightarrow> int \<Rightarrow> int \<Rightarrow> (int \<Rightarrow> int \<Rightarrow> rgb) option"

text \<open>\<^verbatim>\<open>response.raise_for_status()\<close> raises for the 4xx and 5xx status codes.\<close>

definition raise_for_status :: "response \<Rightarrow> error + unit" where
  "raise_for_status r =
     (if 400 \<le> status_code r \<and> status_code r < 600 then Inl FetchError else Inr ())"

text \<open>\<^verbatim>\<open>Image.new("RGB", (w, h), colour)\<close>\<close>

definition image_new :: "int \<Rightarrow> int \<Rightarrow> 'p \<Rightarrow> 'p image" where
  "image_new w h colour = \<lparr>width = nat w, height = nat h, pixel = (\<lambda>x y. colour)\<rparr>"

text \<open>\<^verbatim>\<open>image.resize((w, h), Image.LANCZOS)\<close>: on success the result has the requested size.\<close>

definition image_resize :: "env \<Rightarrow> rgb image \<Rightarrow> int \<Rightarrow> int \<Rightarrow> error + rgb image" where
  "image_resize e img w h =
     (case lanczos e img w h of
        None \<Rightarrow> Inl ResampleError
      | Some px \<Rightarrow> Inr \<lparr>width = nat w, height = nat h, pixel = px\<rparr>)"

text \<open>
  \<^verbatim>\<open>canvas.paste(src, (ox, oy))\<close>: the box of the size of \<open>src\<close> with its upper left
  corner at \<open>(ox, oy)\<close> is overwritten, the size of the canvas stays.
\<close>

definition paste :: "'p image \<Rightarrow> 'p image \<Rightarrow> int \<times> int \<Rightarrow> 'p image" where
  "paste canvas src offset =
     (let ox = fst offset; oy = snd offset
      in canvas\<lparr>pixel :=
           (\<lambda>x y. if ox \<le> x \<and> x < ox + int (width src) \<and> oy \<le> y \<and> y < oy + int (height src)
                  then pixel src (x - ox) (y - oy)
                  else pixel canvas x y)\<rparr>)"

section \<open>fotoapp.py\<close>

definition PLATFORM_SIZES :: "(string \<times> (int \<times> int)) list" where
  "PLATFORM_SIZES =
     [(''youtube'', (1280, 720)),
      (''instagram'', (1080, 1080)),
      (''twitter'', (1200, 675)),
      (''facebook'', (1200, 630))]"

definition load_image :: "env \<Rightarrow> string \<Rightarrow> error + rgb image" where
  "load_image e url =
     (if startswith (lower url) [''http://'', ''https://'']
      then (case requests_get e url of
              None \<Rightarrow> Inl FetchError
            | Some response \<Rightarrow>
                (case raise_for_status response of
                   Inl err \<Rightarrow> Inl err
                 | Inr _ \<Rightarrow>
                     (case open_bytes e (content response) of
                        None \<Rightarrow> Inl DecodeError
                      | Some img \<Rightarrow> Inr img)))
      else (case open_path e url of
              None \<Rightarrow> Inl DecodeError
            | Some img \<Rightarrow> Inr img))"

text \<open>Line 40: \<^verbatim>\<open>scale = min(target_width / width, target_height / height)\<close>\<close>

definition scale_factor :: "int \<Rightarrow> int \<Rightarrow> int \<Rightarrow> int \<Rightarrow> error + rat" where
  "scale_factor target_width target_height w h =
     (case truediv target_width w of
        Inl err \<Rightarrow> Inl err
      | Inr sx \<Rightarrow>
          (case truediv target_height h of
             Inl err \<Rightarrow> Inl err
           | Inr sy \<Rightarrow> Inr (min sx sy)))"

text \<open>Lines 41 and 42: \<^verbatim>\<open>(int(width * scale), int(height * scale))\<close>\<close>

definition new_size :: "int \<Rightarrow> int \<Rightarrow> rat \<Rightarrow> int \<times> int" where
  "new_size w h scale = (int_of_float (mul_int_float w scale), int_of_float (mul_int_float h scale))"

text \<open>Line 47: the offset of the paste, with Python's floor division.\<close>

definition paste_offset :: "int \<Rightarrow> int \<Rightarrow> int \<times> int \<Rightarrow> int \<times> int" where
  "paste_offset target_width target_height sz =
     ((target_width - fst sz) div 2, (target_height - snd sz) div 2)"

definition white :: rgb where
  "white = (255, 255, 255)"

definition resize :: "env \<Rightarrow> string \<Rightarrow> string \<Rightarrow> error + rgb image" where
  "resize e url platform =
     (case load_image e url of
        Inl err \<Rightarrow> Inl err
      | Inr img \<Rightarrow>
          (case map_of PLATFORM_SIZES (lower platform) of
             None \<Rightarrow> Inl (ValueError ''Plataforma no valida.'')
           | Some (target_width, target_height) \<Rightarrow>
               (case scale_factor target_width target_height (int (width img)) (int (height img)) of
                  Inl err \<Rightarrow> Inl err
                | Inr scale \<Rightarrow>
                    (let sz = new_size (int (width img)) (int (height img)) scale
                     in case image_resize e img (fst sz) (snd sz) of
                          Inl err \<Rightarrow> Inl err
                        | Inr resized \<Rightarrow>
                            Inr (paste (image_new target_width target_height white) resized
                                   (paste_offset target_width target_height sz))))))"

subsection \<open>sketch_person\<close>




section \<open>Auxiliary definitions\<close>

text \<open>The unit roundoff of binary64: the relative error of one rounding is at most \<open>eps53\<close>.\<close>

definition eps53 :: rat where
  "eps53 = 1 / 2 ^ 53"

text \<open>
  A small world for concrete runs: no network, one local file \<^verbatim>\<open>foto.png\<close> holding a
  black image of the given size, and a resampler that picks the nearest source pixel and
  refuses an empty target size.
\<close>

definition example_image :: "nat \<Rightarrow> nat \<Rightarrow> rgb image" where
  "example_image w h = \<lparr>width = w, height = h, pixel = (\<lambda>x y. (0, 0, 0))\<rparr>"

definition example_env :: "rgb image \<Rightarrow> env" where
  "example_env img =
     \<lparr>requests_get = (\<lambda>url. None),
      open_bytes = (\<lambda>bs. None),
      open_path = (\<lambda>path. if path = ''foto.png'' then Some img else None),
      lanczos = (\<lambda>src w h. if w < 1 \<or> h < 1 then None
                           else Some (\<lambda>x y. pixel src (x * int (width src) div w)
                                                       (y * int (height src) div h)))\<rparr>"


section \<open>Rounding to 53 bits\<close>

lemma bitlen_powi:
  assumes "0 < a"
  shows "(2::rat) powi (bitlen a - 1) \<le> of_int a" and "of_int a < (2::rat) powi (bitlen a)"
proof -
  from bitlen_bounds[OF assms] have lo: "2 ^ nat (bitlen a - 1) \<le> a" and hi: "a < 2 ^ nat (bitlen a)"
    by auto
  have ge1: "1 \<le> bitlen a" using assms by (auto simp: bitlen_alt_def)
  have "(of_int (2 ^ nat (bitlen a - 1)) :: rat) \<le> of_int a"
    using lo by (simp only: of_int_le_iff)
  then show "(2::rat) powi (bitlen a - 1) \<le> of_int a"
    using ge1 by (simp add: power_int_def)
  have "(of_int a :: rat) < of_int (2 ^ nat (bitlen a))"
    using hi by (simp only: of_int_less_iff)
  then show "of_int a < (2::rat) powi (bitlen a)"
    using ge1 by (simp add: power_int_def)
qed

lemma ilog2_bounds:
  assumes "0 < x"
  shows "2 powi (ilog2 x) \<le> x \<and> x < 2 powi (ilog2 x + 1)"
proof -
  obtain a b where q: "quotient_of x = (a, b)" by (cases "quotient_of x")
  have b: "0 < b" using q quotient_of_denom_pos by blast
  have x: "x = of_int a / of_int b" using q quotient_of_div by blast
  have a: "0 < a" using assms b x by (simp add: zero_less_divide_iff)
  define e where "e = bitlen a - bitlen b"
  have il: "ilog2 x = (if 2 powi e \<le> x then e else e - 1)"
    by (simp add: ilog2_def q e_def Let_def)
  have bpos: "(0::rat) < of_int b" using b by simp
  have "x * of_int b < (2::rat) powi (bitlen a)"
    using bitlen_powi(2)[OF a] x bpos by simp
  also have "\<dots> = 2 powi (e + 1) * 2 powi (bitlen b - 1)"
    by (simp add: e_def flip: power_int_add)
  also have "\<dots> \<le> 2 powi (e + 1) * of_int b"
    using bitlen_powi(1)[OF b] by (simp add: mult_left_mono)
  finally have hi: "x < 2 powi (e + 1)" using bpos by simp
  have "(2::rat) powi (e - 1) * of_int b \<le> 2 powi (e - 1) * 2 powi (bitlen b)"
    using bitlen_powi(2)[OF b] by (simp add: mult_left_mono)
  also have "\<dots> = 2 powi (bitlen a - 1)"
    by (simp add: e_def flip: power_int_add)
  also have "\<dots> \<le> x * of_int b"
    using bitlen_powi(1)[OF a] x bpos by simp
  finally have lo: "2 powi (e - 1) \<le> x" using bpos by simp
  show ?thesis using il hi lo by (auto simp: not_le)
qed

lemma ilog2_unique:
  assumes "2 powi e \<le> (x::rat)" "x < 2 powi (e' + 1)"
  shows "e \<le> e'"
proof (rule ccontr)
  assume "\<not> e \<le> e'"
  then have "e' + 1 \<le> e" by simp
  then have "(2::rat) powi (e' + 1) \<le> 2 powi e" by (intro power_int_increasing) auto
  with assms show False by simp
qed

lemma rhe_err: "\<bar>of_int (round_half_even y) - y\<bar> \<le> 1 / 2"
proof -
  have "of_int \<lfloor>y\<rfloor> \<le> y" "y < of_int \<lfloor>y\<rfloor> + 1" by linarith+
  then show ?thesis
    by (auto simp: round_half_even_def Let_def abs_le_iff)
qed

lemma rhe_of_int [simp]: "round_half_even (of_int n) = n"
  by (simp add: round_half_even_def)

lemma rhe_mono:
  assumes "x \<le> y"
  shows "round_half_even x \<le> round_half_even y"
proof (cases "\<lfloor>x\<rfloor> = \<lfloor>y\<rfloor>")
  case True
  then show ?thesis using assms by (auto simp: round_half_even_def Let_def)
next
  case False
  then have "\<lfloor>x\<rfloor> + 1 \<le> \<lfloor>y\<rfloor>" using floor_mono[OF assms] by simp
  moreover have "round_half_even x \<le> \<lfloor>x\<rfloor> + 1" by (auto simp: round_half_even_def Let_def)
  moreover have "\<lfloor>y\<rfloor> \<le> round_half_even y" by (auto simp: round_half_even_def Let_def)
  ultimately show ?thesis by linarith
qed


lemma fl_binade:
  assumes "0 < x"
  shows "2 powi (ilog2 x) \<le> fl x" and "fl x \<le> 2 powi (ilog2 x + 1)"
proof -
  define e where "e = ilog2 x"
  define q :: rat where "q = 2 powi (e - 52)"
  have qpos: "0 < q" by (simp add: q_def)
  have flx: "fl x = of_int (round_half_even (x / q)) * q"
    using assms by (simp add: fl_def q_def e_def Let_def)
  have b: "2 powi e \<le> x" "x < 2 powi (e + 1)"
    using ilog2_bounds[OF assms] by (simp_all add: e_def)
  have e1: "(2::rat) powi e = 2 ^ 52 * q"
    by (simp add: q_def power_int_diff)
  have e2: "(2::rat) powi (e + 1) = 2 ^ 53 * q"
    by (simp add: q_def power_int_diff power_int_add)
  have "(of_int (2 ^ 52) :: rat) \<le> x / q"
    using b(1) qpos by (simp add: e1 pos_le_divide_eq)
  then have "round_half_even (of_int (2 ^ 52)) \<le> round_half_even (x / q)"
    by (rule rhe_mono)
  then have lo: "(2 ^ 52 :: rat) \<le> of_int (round_half_even (x / q))"
    by (simp only: rhe_of_int) (metis of_int_le_iff of_int_numeral of_int_power)
  have "x / q \<le> (of_int (2 ^ 53) :: rat)"
    using b(2) qpos by (simp add: e2 pos_divide_le_eq)
  then have "round_half_even (x / q) \<le> round_half_even (of_int (2 ^ 53))"
    by (rule rhe_mono)
  then have hi: "of_int (round_half_even (x / q)) \<le> (2 ^ 53 :: rat)"
    by (simp only: rhe_of_int) (metis of_int_le_iff of_int_numeral of_int_power)
  show "2 powi (ilog2 x) \<le> fl x"
    using lo qpos unfolding flx e_def[symmetric] e1 by (rule mult_right_mono[OF _ less_imp_le])
  show "fl x \<le> 2 powi (ilog2 x + 1)"
    using hi qpos unfolding flx e_def[symmetric] e2 by (rule mult_right_mono[OF _ less_imp_le])
qed

lemma fl_pos: "0 < x \<Longrightarrow> 0 < fl x"
  using fl_binade(1)[of x] zero_less_power_int[of "2::rat" "ilog2 x"] by linarith

lemma fl_mono:
  assumes "0 < x" "x \<le> y"
  shows "fl x \<le> fl y"
proof -
  have ypos: "0 < y" using assms by simp
  have le: "ilog2 x \<le> ilog2 y"
    using ilog2_bounds[OF assms(1)] ilog2_bounds[OF ypos] assms(2)
    by (intro ilog2_unique[of _ x]) auto
  show ?thesis
  proof (cases "ilog2 x = ilog2 y")
    case True
    define q :: rat where "q = 2 powi (ilog2 y - 52)"
    have qpos: "0 < q" by (simp add: q_def)
    have "x / q \<le> y / q" using assms(2) qpos by (simp add: divide_right_mono)
    then have "round_half_even (x / q) \<le> round_half_even (y / q)" by (rule rhe_mono)
    then have "(of_int (round_half_even (x / q)) :: rat) * q \<le> of_int (round_half_even (y / q)) * q"
      using qpos by (simp add: mult_right_mono)
    then show ?thesis
      using assms(1) ypos True by (simp add: fl_def Let_def q_def)
  next
    case False
    then have "ilog2 x + 1 \<le> ilog2 y" using le by simp
    then have "(2::rat) powi (ilog2 x + 1) \<le> 2 powi (ilog2 y)"
      by (intro power_int_increasing) auto
    then show ?thesis
      using fl_binade(2)[OF assms(1)] fl_binade(1)[OF ypos] by linarith
  qed
qed

lemma fl_err:
  assumes "0 < x"
  shows "\<bar>fl x - x\<bar> \<le> x / 2 ^ 53"
proof -
  define q :: rat where "q = 2 powi (ilog2 x - 52)"
  have qpos: "0 < q" by (simp add: q_def)
  have flx: "fl x = of_int (round_half_even (x / q)) * q"
    using assms by (simp add: fl_def q_def Let_def)
  have "fl x - x = (of_int (round_half_even (x / q)) - x / q) * q"
    using qpos by (simp add: flx algebra_simps)
  then have "\<bar>fl x - x\<bar> = \<bar>of_int (round_half_even (x / q)) - x / q\<bar> * q"
    using qpos by (simp add: abs_mult)
  also have "\<dots> \<le> (1 / 2) * q"
    using rhe_err[of "x / q"] qpos by (intro mult_right_mono) auto
  also have "\<dots> = 2 powi (ilog2 x) / 2 ^ 53"
    by (simp add: q_def power_int_diff)
  also have "\<dots> \<le> x / 2 ^ 53"
    using ilog2_bounds[OF assms] by (simp add: divide_right_mono)
  finally show ?thesis .
qed



lemma fl_upper:
  assumes "0 < x"
  shows "fl x \<le> x * (1 + eps53)"
proof -
  have "fl x - x \<le> x / 2 ^ 53" using fl_err[OF assms] by (simp only: abs_le_iff)
  moreover have "x * (1 + eps53) = x + x / 2 ^ 53" by (simp add: eps53_def distrib_left)
  ultimately show ?thesis by linarith
qed

lemma fl_lower:
  assumes "0 < x"
  shows "x * (1 - eps53) \<le> fl x"
proof -
  have "- (fl x - x) \<le> x / 2 ^ 53" using fl_err[OF assms] by (simp only: abs_le_iff)
  moreover have "x * (1 - eps53) = x - x / 2 ^ 53" by (simp add: eps53_def right_diff_distrib)
  ultimately show ?thesis by linarith
qed

lemma eps53_cube: "(1 + eps53) ^ 3 \<le> 1 + 1 / 2 ^ 21"
  by code_simp

lemma eps53_bounds: "0 < eps53" "eps53 < 1"
  by (simp_all add: eps53_def)

lemma int_of_float_pos: "0 \<le> x \<Longrightarrow> int_of_float x = \<lfloor>x\<rfloor>"
  by (simp add: int_of_float_def)

lemma mul_int_float_pos:
  assumes "0 < n" "0 < s"
  shows "0 < mul_int_float n s"
proof -
  have "0 < fl (of_int n)" using assms(1) by (simp add: fl_pos)
  then have "0 < fl (of_int n) * s" using assms(2) by simp
  then show ?thesis unfolding mul_int_float_def by (rule fl_pos)
qed

lemma scaled_upper:
  assumes "0 < n" "0 < s"
  shows "of_int (int_of_float (mul_int_float n s)) \<le> of_int n * s * (1 + eps53)\<^sup>2"
proof -
  define A where "A = fl (of_int n)"
  have npos: "(0::rat) < of_int n" using assms(1) by simp
  have Apos: "0 < A" unfolding A_def using npos by (rule fl_pos)
  have A: "A \<le> of_int n * (1 + eps53)" unfolding A_def using npos by (rule fl_upper)
  have ASpos: "0 < A * s" using Apos assms(2) by simp
  have "fl (A * s) \<le> A * s * (1 + eps53)" using ASpos by (rule fl_upper)
  also have "\<dots> = A * (s * (1 + eps53))" by simp
  also have "\<dots> \<le> of_int n * (1 + eps53) * (s * (1 + eps53))"
    using A assms(2) eps53_bounds by (intro mult_right_mono) auto
  also have "\<dots> = of_int n * s * (1 + eps53)\<^sup>2" by (simp add: power2_eq_square)
  finally have X: "fl (A * s) \<le> of_int n * s * (1 + eps53)\<^sup>2" .
  have "0 < mul_int_float n s" using assms by (rule mul_int_float_pos)
  then have "int_of_float (mul_int_float n s) = \<lfloor>fl (A * s)\<rfloor>"
    by (simp add: int_of_float_pos mul_int_float_def A_def)
  moreover have "of_int \<lfloor>fl (A * s)\<rfloor> \<le> fl (A * s)" by (rule of_int_floor_le)
  ultimately show ?thesis using X by linarith
qed

lemma scaled_lower:
  assumes "0 < n" "0 < s"
  shows "of_int n * s * (1 - eps53)\<^sup>2 - 1 < of_int (int_of_float (mul_int_float n s))"
proof -
  define A where "A = fl (of_int n)"
  have npos: "(0::rat) < of_int n" using assms(1) by simp
  have Apos: "0 < A" unfolding A_def using npos by (rule fl_pos)
  have A: "of_int n * (1 - eps53) \<le> A" unfolding A_def using npos by (rule fl_lower)
  have ASpos: "0 < A * s" using Apos assms(2) by simp
  have "of_int n * s * (1 - eps53)\<^sup>2 = of_int n * (1 - eps53) * (s * (1 - eps53))"
    by (simp add: power2_eq_square)
  also have "\<dots> \<le> A * (s * (1 - eps53))"
    using A assms(2) eps53_bounds by (intro mult_right_mono) auto
  also have "\<dots> = A * s * (1 - eps53)" by simp
  also have "\<dots> \<le> fl (A * s)" using ASpos by (rule fl_lower)
  finally have X: "of_int n * s * (1 - eps53)\<^sup>2 \<le> fl (A * s)" .
  have "0 < mul_int_float n s" using assms by (rule mul_int_float_pos)
  then have "int_of_float (mul_int_float n s) = \<lfloor>fl (A * s)\<rfloor>"
    by (simp add: int_of_float_pos mul_int_float_def A_def)
  moreover have "fl (A * s) - 1 < of_int \<lfloor>fl (A * s)\<rfloor>" by linarith
  ultimately show ?thesis using X by linarith
qed

lemma fit_le:
  assumes "0 < t" "t \<le> 2 ^ 20" "0 < n" "0 < s" "s \<le> fl (of_int t / of_int n)"
  shows "int_of_float (mul_int_float n s) \<le> t"
proof -
  have npos: "(0::rat) < of_int n" and tpos: "(0::rat) < of_int t" using assms by simp_all
  have "s \<le> of_int t / of_int n * (1 + eps53)"
    using assms(5) fl_upper[of "of_int t / of_int n"] npos tpos by simp
  then have "of_int n * s \<le> of_int n * (of_int t / of_int n * (1 + eps53))"
    using npos by (simp only: mult_le_cancel_left_pos)
  then have ns: "of_int n * s \<le> of_int t * (1 + eps53)" using npos by simp
  have "of_int (int_of_float (mul_int_float n s)) \<le> of_int n * s * (1 + eps53)\<^sup>2"
    using assms(3,4) by (rule scaled_upper)
  also have "\<dots> \<le> of_int t * (1 + eps53) * (1 + eps53)\<^sup>2"
    using ns by (intro mult_right_mono) auto
  also have "\<dots> = of_int t * (1 + eps53) ^ 3" by (simp add: power3_eq_cube power2_eq_square)
  also have "\<dots> \<le> of_int t * (1 + 1 / 2 ^ 21)"
    using tpos eps53_cube by (intro mult_left_mono) simp_all
  also have "\<dots> = of_int t + of_int t / 2 ^ 21" by (simp add: algebra_simps)
  also have "\<dots> < of_int t + 1"
  proof -
    have "(of_int t :: rat) \<le> of_int (2 ^ 20)" using assms(2) by (simp only: of_int_le_iff)
    then show ?thesis by simp
  qed
  finally have "(of_int (int_of_float (mul_int_float n s)) :: rat) < of_int (t + 1)" by simp
  then have "int_of_float (mul_int_float n s) < t + 1" by (simp only: of_int_less_iff)
  then show ?thesis by simp
qed

section \<open>Facts about the program\<close>

lemma platform_sizes_cases:
  assumes "map_of PLATFORM_SIZES name = Some (tw, th)"
  shows "(tw, th) = (1280, 720) \<or> (tw, th) = (1080, 1080) \<or> (tw, th) = (1200, 675) \<or> (tw, th) = (1200, 630)"
  using assms by (auto simp: PLATFORM_SIZES_def split: if_splits)

lemma platform_sizes_range:
  assumes "map_of PLATFORM_SIZES name = Some (tw, th)"
  shows "0 < tw" "tw \<le> 2 ^ 20" "0 < th" "th \<le> 2 ^ 20"
  using platform_sizes_cases[OF assms] by auto

lemma scale_factor_eq:
  assumes "w \<noteq> 0" "h \<noteq> 0"
  shows "scale_factor tw th w h = Inr (min (fl (of_int tw / of_int w)) (fl (of_int th / of_int h)))"
  using assms by (simp add: scale_factor_def truediv_def)

lemma scale_pos:
  assumes "0 < tw" "0 < th" "0 < w" "0 < h"
  shows "0 < min (fl (of_int tw / of_int w)) (fl (of_int th / of_int h))"
proof -
  have "(0::rat) < of_int tw / of_int w" "(0::rat) < of_int th / of_int h"
    using assms by simp_all
  then have "0 < fl (of_int tw / of_int w)" "0 < fl (of_int th / of_int h)"
    by (simp_all only: fl_pos)
  then show ?thesis by simp
qed

lemma load_image_errors:
  assumes "load_image e url = Inl err"
  shows "err = FetchError \<or> err = DecodeError"
  using assms
  by (auto simp: load_image_def raise_for_status_def split: if_splits option.splits sum.splits)


lemma paste_size:
  "width (paste canvas src off) = width canvas"
  "height (paste canvas src off) = height canvas"
  by (simp_all add: paste_def Let_def)

lemma example_not_url: "startswith (lower ''foto.png'') [''http://'', ''https://''] = False"
  by code_simp

lemma example_load: "load_image (example_env img) ''foto.png'' = Inr img"
  by (simp add: load_image_def example_not_url example_env_def)

lemma example_missing: "load_image (example_env img) ''nada.png'' = Inl DecodeError"
proof -
  have "startswith (lower ''nada.png'') [''http://'', ''https://''] = False" by code_simp
  then show ?thesis by (simp add: load_image_def example_env_def)
qed


lemma lookup_youtube_lc: "map_of PLATFORM_SIZES (lower ''youtube'') = Some (1280, 720)"
  by code_simp

lemma lookup_tiktok: "map_of PLATFORM_SIZES (lower ''tiktok'') = None"
  by code_simp


lemma eps53_small: "4 * eps53 * (2 ^ 20 * (1 + eps53)) < 1"
  by code_simp

lemma cross_bound:
  assumes "0 < t" "t \<le> 2 ^ 20" "0 < n" "0 < m" "0 < s" "s \<le> fl (of_int t / of_int n)"
  shows "of_int (int_of_float (mul_int_float n s)) * of_int m
           - of_int (int_of_float (mul_int_float m s)) * of_int n
         < of_int n + (of_int m :: rat)"
proof -
  define N :: rat where "N = of_int n"
  define M :: rat where "M = of_int m"
  define T :: rat where "T = of_int t"
  define a :: rat where "a = of_int (int_of_float (mul_int_float n s))"
  define b :: rat where "b = of_int (int_of_float (mul_int_float m s))"
  have pos: "0 < N" "0 < M" "0 < T" using assms by (simp_all add: N_def M_def T_def)
  have T: "T \<le> 2 ^ 20"
  proof -
    have "(of_int t :: rat) \<le> of_int (2 ^ 20)" using assms(2) by (simp only: of_int_le_iff)
    then show ?thesis by (simp add: T_def)
  qed
  have a: "a \<le> N * s * (1 + eps53)\<^sup>2"
    unfolding a_def N_def using assms(3,5) by (rule scaled_upper)
  have b: "M * s * (1 - eps53)\<^sup>2 - 1 < b"
    unfolding b_def M_def using assms(4,5) by (rule scaled_lower)
  have "s \<le> T / N * (1 + eps53)"
    using assms(6) fl_upper[of "T / N"] pos by (simp add: T_def N_def)
  then have "N * s \<le> N * (T / N * (1 + eps53))"
    using pos by (simp only: mult_le_cancel_left_pos)
  then have ns: "N * s \<le> T * (1 + eps53)" using pos by simp
  have "a * M \<le> N * s * (1 + eps53)\<^sup>2 * M"
    using a pos by (simp only: mult_le_cancel_right_pos)
  moreover have "(M * s * (1 - eps53)\<^sup>2 - 1) * N < b * N"
    using b pos by (simp only: mult_less_cancel_right_pos)
  moreover have "N * s * (1 + eps53)\<^sup>2 * M - (M * s * (1 - eps53)\<^sup>2 - 1) * N
                   = 4 * eps53 * (N * s) * M + N"
    by (simp add: power2_eq_square algebra_simps)
  ultimately have main: "a * M - b * N < 4 * eps53 * (N * s) * M + N" by linarith
  have "4 * eps53 * (N * s) \<le> 4 * eps53 * (T * (1 + eps53))"
    using ns eps53_bounds by (intro mult_left_mono) auto
  also have "\<dots> \<le> 4 * eps53 * (2 ^ 20 * (1 + eps53))"
    using T eps53_bounds by (intro mult_left_mono mult_right_mono) auto
  also have "\<dots> < 1" by (rule eps53_small)
  finally have "4 * eps53 * (N * s) * M < 1 * M"
    using pos by (simp only: mult_less_cancel_right_pos)
  then show ?thesis using main unfolding a_def b_def N_def M_def by simp
qed

lemma new_size_facts:
  assumes "map_of PLATFORM_SIZES name = Some (tw, th)" and "0 < w" and "0 < h"
    and "scale_factor tw th w h = Inr scale"
  shows "scale = min (fl (of_int tw / of_int w)) (fl (of_int th / of_int h))"
    and "0 < scale"
    and "new_size w h scale = (\<lfloor>fl (fl (of_int w) * scale)\<rfloor>, \<lfloor>fl (fl (of_int h) * scale)\<rfloor>)"
    and "0 \<le> fst (new_size w h scale)" and "fst (new_size w h scale) \<le> tw"
    and "0 \<le> snd (new_size w h scale)" and "snd (new_size w h scale) \<le> th"
proof -
  note t = platform_sizes_range[OF assms(1)]
  have "scale_factor tw th w h = Inr (min (fl (of_int tw / of_int w)) (fl (of_int th / of_int h)))"
    using assms(2,3) by (intro scale_factor_eq) auto
  then show sc: "scale = min (fl (of_int tw / of_int w)) (fl (of_int th / of_int h))"
    using assms(4) by simp
  show spos: "0 < scale"
    unfolding sc using t(1,3) assms(2,3) by (rule scale_pos)
  have pw: "0 < mul_int_float w scale" and ph: "0 < mul_int_float h scale"
    using assms(2,3) spos by (simp_all add: mul_int_float_pos)
  show "new_size w h scale = (\<lfloor>fl (fl (of_int w) * scale)\<rfloor>, \<lfloor>fl (fl (of_int h) * scale)\<rfloor>)"
    using pw ph by (simp add: new_size_def int_of_float_pos) (simp add: mul_int_float_def)
  show "fst (new_size w h scale) \<le> tw"
    unfolding new_size_def fst_conv using t(1,2) assms(2) spos by (rule fit_le) (simp add: sc)
  show "snd (new_size w h scale) \<le> th"
    unfolding new_size_def snd_conv using t(3,4) assms(3) spos by (rule fit_le) (simp add: sc)
  show "0 \<le> fst (new_size w h scale)" "0 \<le> snd (new_size w h scale)"
    using pw ph by (simp_all add: new_size_def int_of_float_pos)
qed

lemma size_1000_1: "new_size 1000 1 (min (fl (32 / 25)) (fl 720)) = (1280, 1)"
  by code_simp

lemma size_10000_1: "new_size 10000 1 (min (fl (16 / 125)) (fl 720)) = (1280, 0)"
  by code_simp




lemma size_1_10000:
  "\<exists>scale. scale_factor 1280 720 1 10000 = Inr scale \<and> new_size 1 10000 scale = (0, 720)"
  "\<exists>scale. scale_factor 1080 1080 1 10000 = Inr scale \<and> new_size 1 10000 scale = (0, 1080)"
  "\<exists>scale. scale_factor 1200 675 1 10000 = Inr scale \<and> new_size 1 10000 scale = (0, 675)"
  "\<exists>scale. scale_factor 1200 630 1 10000 = Inr scale \<and> new_size 1 10000 scale = (0, 630)"
proof -
  have a: "scale_factor 1280 720 1 10000 = Inr (min (fl 1280) (fl (9 / 125)))"
          "scale_factor 1080 1080 1 10000 = Inr (min (fl 1080) (fl (27 / 250)))"
          "scale_factor 1200 675 1 10000 = Inr (min (fl 1200) (fl (27 / 400)))"
          "scale_factor 1200 630 1 10000 = Inr (min (fl 1200) (fl (63 / 1000)))"
    by (simp_all add: scale_factor_def truediv_def)
  have b: "new_size 1 10000 (min (fl 1280) (fl (9 / 125))) = (0, 720)"
          "new_size 1 10000 (min (fl 1080) (fl (27 / 250))) = (0, 1080)"
          "new_size 1 10000 (min (fl 1200) (fl (27 / 400))) = (0, 675)"
          "new_size 1 10000 (min (fl 1200) (fl (63 / 1000))) = (0, 630)"
    by code_simp+
  show "\<exists>scale. scale_factor 1280 720 1 10000 = Inr scale \<and> new_size 1 10000 scale = (0, 720)"
    using a(1) b(1) by blast
  show "\<exists>scale. scale_factor 1080 1080 1 10000 = Inr scale \<and> new_size 1 10000 scale = (0, 1080)"
    using a(2) b(2) by blast
  show "\<exists>scale. scale_factor 1200 675 1 10000 = Inr scale \<and> new_size 1 10000 scale = (0, 675)"
    using a(3) b(3) by blast
  show "\<exists>scale. scale_factor 1200 630 1 10000 = Inr scale \<and> new_size 1 10000 scale = (0, 630)"
    using a(4) b(4) by blast
qed

lemma size_1_10000_profile:
  assumes "map_of PLATFORM_SIZES name = Some (tw, th)"
  shows "\<exists>scale. scale_factor tw th 1 10000 = Inr scale \<and> new_size 1 10000 scale = (0, th)"
  using platform_sizes_cases[OF assms] size_1_10000 by auto

section \<open>The claims\<close>



text \<open>
  Claim C2.  For every profile and every positive source size the scale is the minimum of
  the two quotients, the scaled sides are the floors of the (floating-point) products of the
  source sides with the scale, and neither scaled side exceeds the target.
\<close>
theorem scaled_size_fits:
  assumes "map_of PLATFORM_SIZES name = Some (tw, th)" and "0 < w" and "0 < h"
  shows "\<exists>scale. scale_factor tw th w h = Inr scale
           \<and> scale = min (fl (of_int tw / of_int w)) (fl (of_int th / of_int h))
           \<and> new_size w h scale = (\<lfloor>fl (fl (of_int w) * scale)\<rfloor>, \<lfloor>fl (fl (of_int h) * scale)\<rfloor>)
           \<and> 0 \<le> fst (new_size w h scale) \<and> fst (new_size w h scale) \<le> tw
           \<and> 0 \<le> snd (new_size w h scale) \<and> snd (new_size w h scale) \<le> th"
proof -
  have sf: "scale_factor tw th w h
              = Inr (min (fl (of_int tw / of_int w)) (fl (of_int th / of_int h)))"
    using assms(2,3) by (intro scale_factor_eq) auto
  show ?thesis
    using sf new_size_facts(3-7)[OF assms sf] by blast
qed

theorem scaled_size_fits_witness:
  "\<exists>scale. scale_factor 1280 720 77 1 = Inr scale
       \<and> fst (new_size 77 1 scale) \<le> 1280 \<and> snd (new_size 77 1 scale) \<le> 720"
  using scaled_size_fits[OF lookup_youtube_lc, of 77 1] by auto

text \<open>
  Claim C3 says that every source and every unknown platform name give the
  \<^verbatim>\<open>ValueError\<close> of line 34.  For a source that cannot be loaded the error of the
  load comes out instead: here a missing file and the name \<^verbatim>\<open>tiktok\<close>.
\<close>
theorem unknown_platform_counterexample:
  "map_of PLATFORM_SIZES ''tiktok'' = None
   \<and> resize (example_env (example_image 4000 2000)) ''nada.png'' ''tiktok'' = Inl DecodeError
   \<and> resize (example_env (example_image 4000 2000)) ''nada.png'' ''tiktok''
       \<noteq> Inl (ValueError ''Plataforma no valida.'')"
proof -
  have "map_of PLATFORM_SIZES ''tiktok'' = None" by code_simp
  then show ?thesis by (simp add: resize_def example_missing)
qed

text \<open>
  Claim C3, amended.  If the lower-cased platform name is not a profile then \<open>resize\<close>
  returns no image, whatever the source is, and for a source that loads it fails with
  \<^verbatim>\<open>ValueError("Plataforma no valida.")\<close>.
\<close>
theorem unknown_platform_rejected:
  assumes "map_of PLATFORM_SIZES (lower platform) = None"
  shows "(\<forall>out. resize e url platform \<noteq> Inr out)
         \<and> (\<forall>img. load_image e url = Inr img
               \<longrightarrow> resize e url platform = Inl (ValueError ''Plataforma no valida.''))"
  using assms by (auto simp: resize_def split: sum.splits)

theorem unknown_platform_rejected_witness:
  "resize (example_env (example_image 4000 2000)) ''foto.png'' ''tiktok''
     = Inl (ValueError ''Plataforma no valida.'')"
  using unknown_platform_rejected[OF lookup_tiktok, of "example_env (example_image 4000 2000)" "''foto.png''"]
  by (simp add: example_load)

text \<open>
  Claim C4.  For every profile and every positive source size the offset of the paste is
  the floor of half the leftover space on each axis.  The margin before the pasted image is
  the offset, the margin after it is the rest: both are non-negative and the second exceeds
  the first by at most one pixel.
\<close>
theorem paste_offset_centred:
  assumes "map_of PLATFORM_SIZES name = Some (tw, th)" and "0 < w" and "0 < h"
    and "scale_factor tw th w h = Inr scale"
    and "new_size w h scale = (nw, nh)"
    and "paste_offset tw th (nw, nh) = (ox, oy)"
  shows "ox = \<lfloor>(of_int (tw - nw) :: rat) / 2\<rfloor> \<and> oy = \<lfloor>(of_int (th - nh) :: rat) / 2\<rfloor>
         \<and> 0 \<le> ox \<and> ox \<le> tw - nw - ox \<and> tw - nw - ox \<le> ox + 1
         \<and> 0 \<le> oy \<and> oy \<le> th - nh - oy \<and> th - nh - oy \<le> oy + 1"
proof -
  have le: "nw \<le> tw" "nh \<le> th"
    using new_size_facts(5,7)[OF assms(1-4)] assms(5) by simp_all
  have o: "ox = (tw - nw) div 2" "oy = (th - nh) div 2"
    using assms(6) by (simp_all add: paste_offset_def)
  have f: "\<lfloor>(of_int (tw - nw) :: rat) / 2\<rfloor> = (tw - nw) div 2"
          "\<lfloor>(of_int (th - nh) :: rat) / 2\<rfloor> = (th - nh) div 2"
    using floor_divide_of_int_eq[of "tw - nw" 2, where ?'a = rat]
          floor_divide_of_int_eq[of "th - nh" 2, where ?'a = rat] by simp_all
  show ?thesis unfolding f using o le by presburger
qed

theorem paste_offset_centred_witness:
  "paste_offset 1280 720 (new_size 1000 1 (min (fl (32 / 25)) (fl 720))) = (0, 359)
   \<and> (720::int) - 1 - 359 = 359 + 1"
proof -
  have sf: "scale_factor 1280 720 1000 1 = Inr (min (fl (32 / 25)) (fl 720))"
    using scale_factor_eq[of 1000 1 1280 720] by simp
  have po: "paste_offset 1280 720 (1280, 1) = (0, 359)" by (simp add: paste_offset_def)
  show ?thesis
    using paste_offset_centred[OF lookup_youtube_lc _ _ sf size_1000_1 po] po
    by (simp add: size_1000_1)
qed

text \<open>
  Claim C5 bounds the difference between the scaled and the source aspect ratio by an
  \<open>epsilon\<close> that does not depend on the input.  A source of 1000 by 1 on the youtube
  profile is scaled to 1280 by 1, so the two ratios differ by 280; a source of 10000 by 1 is
  scaled to height 0, where the scaled image has no aspect ratio at all.
\<close>
theorem aspect_ratio_counterexample:
  "map_of PLATFORM_SIZES ''youtube'' = Some (1280, 720)
   \<and> scale_factor 1280 720 1000 1 = Inr (min (fl (1280 / 1000)) (fl (720 / 1)))
   \<and> new_size 1000 1 (min (fl (1280 / 1000)) (fl (720 / 1))) = (1280, 1)
   \<and> \<bar>of_int (fst (new_size 1000 1 (min (fl (1280 / 1000)) (fl (720 / 1)))))
        / of_int (snd (new_size 1000 1 (min (fl (1280 / 1000)) (fl (720 / 1)))))
        - 1000 / 1\<bar> = (280 :: rat)
   \<and> scale_factor 1280 720 10000 1 = Inr (min (fl (1280 / 10000)) (fl (720 / 1)))
   \<and> snd (new_size 10000 1 (min (fl (1280 / 10000)) (fl (720 / 1)))) = 0"
proof -
  have "map_of PLATFORM_SIZES ''youtube'' = Some (1280, 720)" by (simp add: PLATFORM_SIZES_def)
  moreover have "scale_factor 1280 720 1000 1 = Inr (min (fl (1280 / 1000)) (fl (720 / 1)))"
    using scale_factor_eq[of 1000 1 1280 720] by simp
  moreover have "scale_factor 1280 720 10000 1 = Inr (min (fl (1280 / 10000)) (fl (720 / 1)))"
    using scale_factor_eq[of 10000 1 1280 720] by simp
  ultimately show ?thesis using size_1000_1 size_10000_1 by simp
qed

text \<open>
  Claim C5, amended.  Both scaled sides are floors of products with one and the same scale,
  and the aspect ratio is preserved up to the truncation:
  \<open>\<bar>nw * h - nh * w\<bar> < w + h\<close>, which for a positive scaled height says
  \<open>\<bar>nw / nh - w / h\<bar> < (1 + w / h) / nh\<close>.  Nothing is cropped: the pasted box lies
  inside the canvas.
\<close>
theorem aspect_ratio_bound:
  assumes "map_of PLATFORM_SIZES name = Some (tw, th)" and "0 < w" and "0 < h"
    and "scale_factor tw th w h = Inr scale"
    and "new_size w h scale = (nw, nh)"
    and "paste_offset tw th (nw, nh) = (ox, oy)"
  shows "\<bar>nw * h - nh * w\<bar> < w + h
         \<and> (0 < nh \<longrightarrow> \<bar>of_int nw / of_int nh - of_int w / of_int h\<bar>
                          < (1 + of_int w / of_int h) / (of_int nh :: rat))
         \<and> nw = \<lfloor>fl (fl (of_int w) * scale)\<rfloor> \<and> nh = \<lfloor>fl (fl (of_int h) * scale)\<rfloor>
         \<and> 0 \<le> ox \<and> ox + nw \<le> tw \<and> 0 \<le> oy \<and> oy + nh \<le> th"
proof -
  note t = platform_sizes_range[OF assms(1)]
  note f = new_size_facts[OF assms(1-4)]
  have nw: "nw = int_of_float (mul_int_float w scale)" and nh: "nh = int_of_float (mul_int_float h scale)"
    using assms(5) by (simp_all add: new_size_def)
  have "of_int nw * of_int h - of_int nh * of_int w < of_int w + (of_int h :: rat)"
    unfolding nw nh using t(1,2) assms(2,3) f(2) by (rule cross_bound) (simp add: f(1))
  then have "(of_int (nw * h - nh * w) :: rat) < of_int (w + h)" by simp
  then have c1: "nw * h - nh * w < w + h" by (simp only: of_int_less_iff)
  have "of_int nh * of_int w - of_int nw * of_int h < of_int h + (of_int w :: rat)"
    unfolding nw nh using t(3,4) assms(3,2) f(2) by (rule cross_bound) (simp add: f(1))
  then have "(of_int (nh * w - nw * h) :: rat) < of_int (w + h)" by simp
  then have c2: "nh * w - nw * h < w + h" by (simp only: of_int_less_iff)
  have cross: "\<bar>nw * h - nh * w\<bar> < w + h" using c1 c2 by linarith
  have ratio: "\<bar>of_int nw / of_int nh - of_int w / of_int h\<bar>
                 < (1 + of_int w / of_int h) / (of_int nh :: rat)" if "0 < nh"
  proof -
    have hp: "(0::rat) < of_int h" and np: "(0::rat) < of_int nh" using assms(3) that by simp_all
    have "(of_int \<bar>nw * h - nh * w\<bar> :: rat) < of_int (w + h)"
      using cross by (simp only: of_int_less_iff)
    then have "\<bar>of_int nw * of_int h - of_int nh * of_int w\<bar> < of_int w + (of_int h :: rat)"
      by simp
    then have "\<bar>of_int nw * of_int h - of_int nh * of_int w\<bar> / (of_int nh * of_int h)
                 < (of_int w + (of_int h :: rat)) / (of_int nh * of_int h)"
      using hp np by (simp add: divide_strict_right_mono)
    moreover have "\<bar>of_int nw * of_int h - of_int nh * of_int w\<bar> / (of_int nh * of_int h)
                 = \<bar>(of_int nw * of_int h - of_int nh * of_int w) / (of_int nh * of_int h :: rat)\<bar>"
      using hp np by (simp add: abs_mult)
    moreover have "(of_int nw * of_int h - of_int nh * of_int w) / (of_int nh * of_int h :: rat)
                 = of_int nw / of_int nh - of_int w / of_int h"
      using hp np by (simp add: field_simps)
    moreover have "(of_int w + (of_int h :: rat)) / (of_int nh * of_int h)
                 = (1 + of_int w / of_int h) / of_int nh"
      using hp np by (simp add: field_simps)
    ultimately show ?thesis by simp
  qed
  have fl: "nw = \<lfloor>fl (fl (of_int w) * scale)\<rfloor>" "nh = \<lfloor>fl (fl (of_int h) * scale)\<rfloor>"
    using f(3) assms(5) by simp_all
  have le: "0 \<le> nw" "nw \<le> tw" "0 \<le> nh" "nh \<le> th"
    using f(4-7) assms(5) by simp_all
  have o: "ox = (tw - nw) div 2" "oy = (th - nh) div 2"
    using assms(6) by (simp_all add: paste_offset_def)
  have box: "0 \<le> ox \<and> ox + nw \<le> tw \<and> 0 \<le> oy \<and> oy + nh \<le> th"
    using o le by presburger
  show ?thesis using cross ratio fl box by blast
qed

theorem aspect_ratio_bound_witness:
  "new_size 1000 1 (min (fl (32 / 25)) (fl 720)) = (1280, 1)
   \<and> \<bar>1280 * 1 - 1 * 1000\<bar> < (1000::int) + 1
   \<and> \<bar>(1280::rat) / 1 - 1000 / 1\<bar> < (1 + 1000 / 1) / 1"
proof -
  have sf: "scale_factor 1280 720 1000 1 = Inr (min (fl (32 / 25)) (fl 720))"
    using scale_factor_eq[of 1000 1 1280 720] by simp
  have po: "paste_offset 1280 720 (1280, 1) = (0, 359)" by (simp add: paste_offset_def)
  show ?thesis
    using aspect_ratio_bound[OF lookup_youtube_lc _ _ sf size_1000_1 po] size_1000_1
    by simp
qed



text \<open>
  Claim C7.  A source of 4000 by 2000 on the youtube profile: the scale is the float 0.32,
  the scaled size is 1280 by 640, the offset is (0, 40), and the result is a canvas of
  1280 by 720 whose rows 0 to 39 and 680 to 719 are white, with the resampled image in the
  rows between.
\<close>
theorem youtube_4000_2000:
  assumes "load_image e url = Inr img" and "width img = 4000" and "height img = 2000"
    and "lanczos e img 1280 640 = Some px"
  shows "scale_factor 1280 720 4000 2000 = Inr (fl (32 / 100))
         \<and> new_size 4000 2000 (fl (32 / 100)) = (1280, 640)
         \<and> paste_offset 1280 720 (1280, 640) = (0, 40)
         \<and> (\<exists>out. resize e url ''youtube'' = Inr out
               \<and> width out = 1280 \<and> height out = 720
               \<and> (\<forall>x y. 0 \<le> x \<and> x < 1280 \<and> (0 \<le> y \<and> y < 40 \<or> 680 \<le> y \<and> y < 720)
                      \<longrightarrow> pixel out x y = (255, 255, 255))
               \<and> (\<forall>x y. 0 \<le> x \<and> x < 1280 \<and> 40 \<le> y \<and> y < 680
                      \<longrightarrow> pixel out x y = px x (y - 40)))"
proof -
  have sf: "scale_factor 1280 720 4000 2000 = Inr (fl (32 / 100))" by code_simp
  have ns: "new_size 4000 2000 (fl (32 / 100)) = (1280, 640)" by code_simp
  have po: "paste_offset 1280 720 (1280, 640) = (0, 40)" by (simp add: paste_offset_def)
  obtain scale where s: "scale_factor 1280 720 4000 2000 = Inr scale" "new_size 4000 2000 scale = (1280, 640)"
    using sf ns by blast
  have r: "resize e url ''youtube'' =
        Inr (paste (image_new 1280 720 white) \<lparr>width = 1280, height = 640, pixel = px\<rparr> (0, 40))"
    using assms s lookup_youtube_lc po
    by (simp add: resize_def image_resize_def)
  have "width (paste (image_new 1280 720 white) \<lparr>width = 1280, height = 640, pixel = px\<rparr> (0, 40)) = 1280"
       "height (paste (image_new 1280 720 white) \<lparr>width = 1280, height = 640, pixel = px\<rparr> (0, 40)) = 720"
    by (simp_all add: paste_size image_new_def)
  moreover have "\<forall>x y. 0 \<le> x \<and> x < 1280 \<and> (0 \<le> y \<and> y < 40 \<or> 680 \<le> y \<and> y < 720)
       \<longrightarrow> pixel (paste (image_new 1280 720 white) \<lparr>width = 1280, height = 640, pixel = px\<rparr> (0, 40)) x y
             = (255, 255, 255)"
    by (auto simp: paste_def image_new_def white_def)
  moreover have "\<forall>x y. 0 \<le> x \<and> x < 1280 \<and> 40 \<le> y \<and> y < 680
       \<longrightarrow> pixel (paste (image_new 1280 720 white) \<lparr>width = 1280, height = 640, pixel = px\<rparr> (0, 40)) x y
             = px x (y - 40)"
    by (auto simp: paste_def image_new_def)
  ultimately show ?thesis using sf ns po r by blast
qed

theorem youtube_4000_2000_witness:
  "\<exists>out. resize (example_env (example_image 4000 2000)) ''foto.png'' ''youtube'' = Inr out
       \<and> width out = 1280 \<and> height out = 720
       \<and> pixel out 0 0 = (255, 255, 255) \<and> pixel out 1279 39 = (255, 255, 255)
       \<and> pixel out 0 680 = (255, 255, 255) \<and> pixel out 1279 719 = (255, 255, 255)
       \<and> pixel out 0 40 = (0, 0, 0) \<and> pixel out 1279 679 = (0, 0, 0)"
proof -
  have l: "lanczos (example_env (example_image 4000 2000)) (example_image 4000 2000) 1280 640
            = Some (\<lambda>x y. pixel (example_image 4000 2000)
                      (x * int (width (example_image 4000 2000)) div 1280)
                      (y * int (height (example_image 4000 2000)) div 640))"
    by (simp add: example_env_def)
  have w: "width (example_image 4000 2000) = 4000" "height (example_image 4000 2000) = 2000"
    by (simp_all add: example_image_def)
  obtain out where o: "resize (example_env (example_image 4000 2000)) ''foto.png'' ''youtube'' = Inr out"
       "width out = 1280" "height out = 720"
       "\<forall>x y. 0 \<le> x \<and> x < 1280 \<and> (0 \<le> y \<and> y < 40 \<or> 680 \<le> y \<and> y < 720)
                      \<longrightarrow> pixel out x y = (255, 255, 255)"
       "\<forall>x y. 0 \<le> x \<and> x < 1280 \<and> 40 \<le> y \<and> y < 680
                      \<longrightarrow> pixel out x y = pixel (example_image 4000 2000)
                      (x * int (width (example_image 4000 2000)) div 1280)
                      ((y - 40) * int (height (example_image 4000 2000)) div 640)"
    using youtube_4000_2000[OF example_load[of "example_image 4000 2000"] w l] by blast
  have "pixel out 0 0 = (255, 255, 255)" "pixel out 1279 39 = (255, 255, 255)"
       "pixel out 0 680 = (255, 255, 255)" "pixel out 1279 719 = (255, 255, 255)"
    using o(4) by simp_all
  moreover have "pixel out 0 40 = (0, 0, 0)" "pixel out 1279 679 = (0, 0, 0)"
    using o(5) by (simp_all add: example_image_def)
  ultimately show ?thesis using o(1-3) by simp
qed

text \<open>
  Claim C8.  The source is loaded before the platform name is looked at: an error of the
  load is the result of \<open>resize\<close> whatever the platform name is, so a
  \<^verbatim>\<open>ValueError\<close> of \<open>resize\<close> is only ever seen for a source that loaded.
\<close>
theorem load_before_validation:
  "(load_image e url = Inl err \<longrightarrow> resize e url platform = Inl err)
   \<and> (resize e url platform = Inl (ValueError msg) \<longrightarrow> (\<exists>img. load_image e url = Inr img))"
proof
  show "load_image e url = Inl err \<longrightarrow> resize e url platform = Inl err"
    by (simp add: resize_def)
  show "resize e url platform = Inl (ValueError msg) \<longrightarrow> (\<exists>img. load_image e url = Inr img)"
  proof (cases "load_image e url")
    case (Inl err')
    then have "resize e url platform = Inl err'" by (simp add: resize_def)
    moreover have "err' = FetchError \<or> err' = DecodeError" using Inl by (rule load_image_errors)
    ultimately show ?thesis by auto
  next
    case (Inr img)
    then show ?thesis by simp
  qed
qed

theorem load_before_validation_witness:
  "load_image (example_env (example_image 4000 2000)) ''nada.png'' = Inl DecodeError
   \<and> map_of PLATFORM_SIZES (lower ''tiktok'') = None
   \<and> resize (example_env (example_image 4000 2000)) ''nada.png'' ''tiktok'' = Inl DecodeError
   \<and> resize (example_env (example_image 4000 2000)) ''foto.png'' ''tiktok''
        = Inl (ValueError ''Plataforma no valida.'')
   \<and> (\<exists>img. load_image (example_env (example_image 4000 2000)) ''foto.png'' = Inr img)"
proof -
  have a: "resize (example_env (example_image 4000 2000)) ''nada.png'' ''tiktok'' = Inl DecodeError"
    using load_before_validation[of "example_env (example_image 4000 2000)" "''nada.png''" DecodeError "''tiktok''"]
    by (simp add: example_missing)
  have b: "resize (example_env (example_image 4000 2000)) ''foto.png'' ''tiktok''
        = Inl (ValueError ''Plataforma no valida.'')"
    by (simp add: resize_def example_load lookup_tiktok)
  have c: "\<exists>img. load_image (example_env (example_image 4000 2000)) ''foto.png'' = Inr img"
    using load_before_validation[of "example_env (example_image 4000 2000)" "''foto.png''" _ "''tiktok''" "''Plataforma no valida.''"] b
    by blast
  show ?thesis using a b c example_missing lookup_tiktok by simp
qed

text \<open>
  Claim C9.  For a source of 1 by 10000 and any of the four profiles the scaled width is 0
  (and the scaled height is the target height), so the outcome of \<open>resize\<close> is what the
  library's resample answers when it is asked for an image of width 0.
\<close>
theorem zero_sized_resample:
  assumes "load_image e url = Inr img" and "width img = 1" and "height img = 10000"
    and "map_of PLATFORM_SIZES (lower platform) = Some (tw, th)"
  shows "\<exists>scale. scale_factor tw th 1 10000 = Inr scale
           \<and> new_size 1 10000 scale = (0, th)
           \<and> resize e url platform =
               (case lanczos e img 0 th of
                  None \<Rightarrow> Inl ResampleError
                | Some px \<Rightarrow>
                    Inr (paste (image_new tw th white)
                           \<lparr>width = 0, height = nat th, pixel = px\<rparr>
                           (paste_offset tw th (0, th))))"
proof -
  obtain scale where s: "scale_factor tw th 1 10000 = Inr scale" "new_size 1 10000 scale = (0, th)"
    using size_1_10000_profile[OF assms(4)] by blast
  have "resize e url platform =
               (case lanczos e img 0 th of
                  None \<Rightarrow> Inl ResampleError
                | Some px \<Rightarrow>
                    Inr (paste (image_new tw th white)
                           \<lparr>width = 0, height = nat th, pixel = px\<rparr>
                           (paste_offset tw th (0, th))))"
    using assms s by (simp add: resize_def image_resize_def split: option.splits)
  then show ?thesis using s by blast
qed

theorem zero_sized_resample_witness:
  "0 < width (example_image 1 10000) \<and> 0 < height (example_image 1 10000)
   \<and> lanczos (example_env (example_image 1 10000)) (example_image 1 10000) 0 720 = None
   \<and> resize (example_env (example_image 1 10000)) ''foto.png'' ''youtube'' = Inl ResampleError"
proof -
  have l: "lanczos (example_env (example_image 1 10000)) (example_image 1 10000) 0 720 = None"
    by (simp add: example_env_def)
  have "resize (example_env (example_image 1 10000)) ''foto.png'' ''youtube'' = Inl ResampleError"
    using zero_sized_resample[OF example_load[of "example_image 1 10000"] _ _ lookup_youtube_lc] l
    by (auto simp: example_image_def)
  then show ?thesis using l by (simp add: example_image_def)
qed



end
